theory Spec2Isabelle
  imports Main "HOL-Library.Word"
begin

unbundle bit_operations_syntax

section \<open>Machine types, failed assertions, C strings\<close>

type_synonym u8 = "8 word"
type_synonym u16 = "16 word"
type_synonym u32 = "32 word"
type_synonym ulong = "64 word"

text \<open>
  \<^verbatim>\<open>CHECK(cond)\<close> stops the process when \<open>cond\<close> is false. Every function that
  starts with a \<^verbatim>\<open>CHECK\<close> returns \<open>error + 'a\<close>, with \<open>Inl CheckFailed\<close> for the stop.
  A pointer that may be \<^verbatim>\<open>NULL\<close> is an \<open>option\<close>.
\<close>

datatype error = CheckFailed

definition NUL :: char where
  "NUL = CHR 0x00"

text \<open>
  A \<^verbatim>\<open>const char*\<close> is modelled by the bytes it points to, as a \<open>char list\<close>; the
  C string it denotes ends at the first \<open>NUL\<close> of the list, or at the end of the list
  (where the terminator is). Reading at the end of the list gives the terminator.
\<close>

definition char_at :: "char list \<Rightarrow> nat \<Rightarrow> char" where
  "char_at s i = (if i < length s then s ! i else NUL)"

fun strlen :: "char list \<Rightarrow> nat" where
  "strlen [] = 0"
| "strlen (c # cs) = (if c = NUL then 0 else Suc (strlen cs))"

text \<open>The C string held in a buffer: the bytes before the first \<open>NUL\<close>.\<close>

definition c_str :: "char list \<Rightarrow> char list" where
  "c_str s = take (strlen s) s"

fun memcmp :: "u8 list \<Rightarrow> u8 list \<Rightarrow> nat \<Rightarrow> int" where
  "memcmp (a # as) (b # bs) (Suc n) =
     (if a = b then memcmp as bs n else int (unat a) - int (unat b))"
| "memcmp _ _ _ = 0"

definition memcpy :: "u8 list \<Rightarrow> u8 list \<Rightarrow> nat \<Rightarrow> u8 list" where
  "memcpy dest src n = take n src @ drop n dest"

subsection \<open>\<^verbatim>\<open>strtoul\<close>\<close>

text \<open>
  \<^verbatim>\<open>strtoul(nptr, NULL, base)\<close> of the C library, as ISO C describes it (7.22.1.4), for
  a base from 2 to 36 (the module passes 16). \<open>nptr\<close> is the list of the characters it
  points to; a \<open>NUL\<close> or the end of the list ends the string, neither being white space,
  a sign or a digit. White space is skipped, then an optional sign, then for base 16 an optional
  \<^verbatim>\<open>0x\<close> or \<^verbatim>\<open>0X\<close> in front of a hexadecimal digit; the digits that follow are
  accumulated up to the first character that is not a digit of the base. Without any digit
  the result is 0; a value above \<^verbatim>\<open>ULONG_MAX\<close> gives \<^verbatim>\<open>ULONG_MAX\<close>; after a minus sign
  the value is negated in \<^verbatim>\<open>unsigned long\<close> (64 bits here; the low byte, the only part
  the module keeps, is the same with 32 bits).
\<close>

definition isspace :: "char \<Rightarrow> bool" where
  "isspace c = (c = CHR '' '' \<or> (9 \<le> (of_char c :: nat) \<and> (of_char c :: nat) \<le> 13))"

definition digit_value :: "char \<Rightarrow> nat option" where
  "digit_value c =
     (let n = (of_char c :: nat) in
      if 48 \<le> n \<and> n \<le> 57 then Some (n - 48)
      else if 65 \<le> n \<and> n \<le> 90 then Some (n - 55)
      else if 97 \<le> n \<and> n \<le> 122 then Some (n - 87)
      else None)"

definition isxdigit :: "char \<Rightarrow> bool" where
  "isxdigit c = (case digit_value c of None \<Rightarrow> False | Some d \<Rightarrow> d < 16)"

fun skip_space :: "char list \<Rightarrow> char list" where
  "skip_space [] = []"
| "skip_space (c # cs) = (if isspace c then skip_space cs else c # cs)"

fun strtoul_digits :: "nat \<Rightarrow> char list \<Rightarrow> int \<Rightarrow> int" where
  "strtoul_digits base [] acc = acc"
| "strtoul_digits base (c # cs) acc =
     (case digit_value c of
        None \<Rightarrow> acc
      | Some d \<Rightarrow>
          if base \<le> d then acc else strtoul_digits base cs (acc * int base + int d))"

definition ULONG_MAX :: int where
  "ULONG_MAX = 2 ^ 64 - 1"

definition skip_sign :: "char list \<Rightarrow> char list" where
  "skip_sign s = (case s of [] \<Rightarrow> [] | c # cs \<Rightarrow> if c = CHR ''-'' \<or> c = CHR ''+'' then cs else s)"

definition skip_prefix :: "nat \<Rightarrow> char list \<Rightarrow> char list" where
  "skip_prefix base s =
     (case s of
        z # x # h # cs \<Rightarrow>
          if base = 16 \<and> z = CHR ''0'' \<and> (x = CHR ''x'' \<or> x = CHR ''X'') \<and> isxdigit h
          then h # cs else s
      | _ \<Rightarrow> s)"

definition strtoul :: "char list \<Rightarrow> nat \<Rightarrow> ulong" where
  "strtoul nptr base =
     (let s = skip_space nptr;
          neg = (case s of [] \<Rightarrow> False | c # _ \<Rightarrow> c = CHR ''-'');
          acc = strtoul_digits base (skip_prefix base (skip_sign s)) 0
      in if ULONG_MAX < acc then word_of_int ULONG_MAX
         else if neg then - word_of_int acc
         else word_of_int acc)"

subsection \<open>\<^verbatim>\<open>snprintf\<close> with the format \<^verbatim>\<open>%02x\<close>\<close>

definition hex_digit :: "nat \<Rightarrow> char" where
  "hex_digit d = ''0123456789abcdef'' ! d"

fun hex_of_nat :: "nat \<Rightarrow> char list" where
  "hex_of_nat n =
     (if n < 16 then [hex_digit n] else hex_of_nat (n div 16) @ [hex_digit (n mod 16)])"

declare hex_of_nat.simps [simp del]

text \<open>\<^verbatim>\<open>%02x\<close>: lowercase hexadecimal, padded with zeros on the left to two characters.\<close>

definition format_02x :: "nat \<Rightarrow> char list" where
  "format_02x n = replicate (2 - length (hex_of_nat n)) (CHR ''0'') @ hex_of_nat n"

fun store :: "char list \<Rightarrow> nat \<Rightarrow> char list \<Rightarrow> char list" where
  "store buf p [] = buf"
| "store buf p (c # cs) = store (buf[p := c]) (Suc p) cs"

text \<open>
  \<^verbatim>\<open>snprintf(string, sz, "%02x", v)\<close>, where \<open>string\<close> is the offset \<open>p\<close> in the buffer:
  at most \<open>sz - 1\<close> characters of the output are written, then a \<open>NUL\<close> (nothing when
  \<open>sz\<close> is 0); the value returned is the length of the whole output.
\<close>

definition snprintf_02x :: "char list \<Rightarrow> nat \<Rightarrow> nat \<Rightarrow> u8 \<Rightarrow> char list \<times> nat" where
  "snprintf_02x buf p sz v =
     (if sz = 0 then buf else store buf p (take (sz - 1) (format_02x (unat v)) @ [NUL]),
      length (format_02x (unat v)))"

section \<open>The UUID module\<close>

text \<open>
  Modelled from the spec: the declaration of \<^verbatim>\<open>bt_uuid_t\<close> (btcore/include/uuid.h), a
  structure whose only member is the array \<^verbatim>\<open>uint8_t uu[16]\<close>, so that
  \<^verbatim>\<open>sizeof(bt_uuid_t)\<close> is 16. A value of the type is valid when it has its 16 bytes.
\<close>

record bt_uuid_t =
  uu :: "u8 list"

definition sizeof_bt_uuid_t :: nat where
  "sizeof_bt_uuid_t = 16"

definition valid_uuid :: "bt_uuid_t \<Rightarrow> bool" where
  "valid_uuid u = (length (uu u) = sizeof_bt_uuid_t)"

definition UUID_WELL_FORMED_STRING_LEN :: nat where
  "UUID_WELL_FORMED_STRING_LEN = 36"

definition UUID_WELL_FORMED_STRING_LEN_WITH_NULL :: nat where
  "UUID_WELL_FORMED_STRING_LEN_WITH_NULL = 36 + 1"

text \<open>
  \<^verbatim>\<open>uuid_string_t\<close> is the character array \<open>string\<close>; \<^verbatim>\<open>uuid_string_new\<close> gives it
  \<open>UUID_WELL_FORMED_STRING_LEN_WITH_NULL\<close> bytes.
\<close>

record uuid_string_t =
  string :: "char list"

definition valid_uuid_string :: "uuid_string_t \<Rightarrow> bool" where
  "valid_uuid_string us = (length (string us) = UUID_WELL_FORMED_STRING_LEN_WITH_NULL)"

definition empty_uuid :: bt_uuid_t where
  "empty_uuid = \<lparr>uu = replicate 16 0\<rparr>"

definition base_uuid :: bt_uuid_t where
  "base_uuid = \<lparr>uu = [0x00, 0x00, 0x00, 0x00, 0x00, 0x00, 0x10, 0x00, 0x80, 0x00, 0x00, 0x80,
                       0x5f, 0x9b, 0x34, 0xfb]\<rparr>"

text \<open>
  Modelled from the spec: \<^verbatim>\<open>osi_calloc\<close> (osi/include/allocator.h), the allocator that
  returns zero-initialised storage of the size asked for.
\<close>

definition osi_calloc :: "nat \<Rightarrow> u8 list" where
  "osi_calloc n = replicate n 0"

definition uuid_string_new :: uuid_string_t where
  "uuid_string_new =
     \<lparr>string = map (\<lambda>b. char_of (unat b)) (osi_calloc UUID_WELL_FORMED_STRING_LEN_WITH_NULL)\<rparr>"

definition uuid_string_data :: "uuid_string_t option \<Rightarrow> error + char list" where
  "uuid_string_data uuid_string =
     (case uuid_string of None \<Rightarrow> Inl CheckFailed | Some us \<Rightarrow> Inr (string us))"

subsection \<open>\<^verbatim>\<open>uuid_new\<close>\<close>

text \<open>
  The loop \<^verbatim>\<open>for (i = 0; i < sizeof(bt_uuid_t); ++i, s += 2)\<close>: \<open>s\<close> is the offset of
  the read pointer in \<open>uuid_string\<close>; \<^verbatim>\<open>buf\<close> holds the two characters read and its
  terminator; the \<^verbatim>\<open>unsigned long\<close> that \<^verbatim>\<open>strtoul\<close> returns is cut to a byte by the
  assignment to \<^verbatim>\<open>uuid->uu[i]\<close>.
\<close>

function uuid_new_loop :: "char list \<Rightarrow> nat \<Rightarrow> nat \<Rightarrow> bt_uuid_t \<Rightarrow> bt_uuid_t" where
  "uuid_new_loop uuid_string i s uuid =
     (if i < sizeof_bt_uuid_t then
        uuid_new_loop uuid_string (i + 1)
          ((if i = 3 \<or> i = 5 \<or> i = 7 \<or> i = 9 then s + 1 else s) + 2)
          (uuid\<lparr>uu := (uu uuid)
             [i := ucast (strtoul [char_at uuid_string s, char_at uuid_string (s + 1), NUL] 16)]\<rparr>)
      else uuid)"
  by pat_completeness auto
termination
  by (relation "measure (\<lambda>(uuid_string, i, s, uuid). sizeof_bt_uuid_t - i)") auto

declare uuid_new_loop.simps [simp del]

definition uuid_new :: "char list option \<Rightarrow> error + bt_uuid_t option" where
  "uuid_new uuid_string =
     (case uuid_string of
        None \<Rightarrow> Inl CheckFailed
      | Some str \<Rightarrow>
          if strlen str < UUID_WELL_FORMED_STRING_LEN then Inr None
          else if char_at str 8 \<noteq> CHR ''-'' \<or> char_at str 13 \<noteq> CHR ''-'' \<or>
                  char_at str 18 \<noteq> CHR ''-'' \<or> char_at str 23 \<noteq> CHR ''-''
          then Inr None
          else Inr (Some (uuid_new_loop str 0 0 \<lparr>uu = osi_calloc sizeof_bt_uuid_t\<rparr>)))"

subsection \<open>Emptiness, equality, copy\<close>

definition uuid_is_empty :: "bt_uuid_t option \<Rightarrow> bool" where
  "uuid_is_empty uuid =
     (case uuid of
        None \<Rightarrow> True
      | Some u \<Rightarrow> memcmp (uu u) (uu empty_uuid) sizeof_bt_uuid_t = 0)"

definition uuid_is_equal :: "bt_uuid_t option \<Rightarrow> bt_uuid_t option \<Rightarrow> error + bool" where
  "uuid_is_equal first second =
     (case first of
        None \<Rightarrow> Inl CheckFailed
      | Some a \<Rightarrow>
          (case second of
             None \<Rightarrow> Inl CheckFailed
           | Some b \<Rightarrow> Inr (memcmp (uu a) (uu b) sizeof_bt_uuid_t = 0)))"

text \<open>The value returned is \<open>dest\<close>, given here with the bytes it holds after the copy.\<close>

definition uuid_copy :: "bt_uuid_t option \<Rightarrow> bt_uuid_t option \<Rightarrow> error + bt_uuid_t" where
  "uuid_copy dest src =
     (case dest of
        None \<Rightarrow> Inl CheckFailed
      | Some d \<Rightarrow>
          (case src of
             None \<Rightarrow> Inl CheckFailed
           | Some s \<Rightarrow> Inr (d\<lparr>uu := memcpy (uu d) (uu s) sizeof_bt_uuid_t\<rparr>)))"

subsection \<open>The base UUID and the short forms\<close>

function uuid_is_base_loop :: "bt_uuid_t \<Rightarrow> nat \<Rightarrow> bool" where
  "uuid_is_base_loop uuid i =
     (if i < 16 then
        (if uu uuid ! i \<noteq> uu base_uuid ! i then False else uuid_is_base_loop uuid (i + 1))
      else True)"
  by pat_completeness auto
termination
  by (relation "measure (\<lambda>(uuid, i). 16 - i)") auto

declare uuid_is_base_loop.simps [simp del]

definition uuid_is_base :: "bt_uuid_t option \<Rightarrow> bool" where
  "uuid_is_base uuid = (case uuid of None \<Rightarrow> False | Some u \<Rightarrow> uuid_is_base_loop u 4)"

text \<open>
  The output parameter \<^verbatim>\<open>uint16_t* uuid16\<close> is given by the value its target holds at
  the call (\<open>None\<close> for a \<^verbatim>\<open>NULL\<close> pointer); the result is the value returned together
  with the value the target holds afterwards. The bytes are promoted to \<^verbatim>\<open>int\<close> (32
  bits) for the shifts and the sums, and the assignment cuts the sum to the target's width.
\<close>

definition uuid_128_to_16 :: "bt_uuid_t option \<Rightarrow> u16 option \<Rightarrow> error + bool \<times> u16" where
  "uuid_128_to_16 uuid uuid16 =
     (case uuid of
        None \<Rightarrow> Inl CheckFailed
      | Some u \<Rightarrow>
          (case uuid16 of
             None \<Rightarrow> Inl CheckFailed
           | Some out \<Rightarrow>
               if \<not> uuid_is_base (Some u) then Inr (False, out)
               else Inr (True,
                 ucast (push_bit 8 (ucast (uu u ! 2) :: 32 word) + (ucast (uu u ! 3) :: 32 word)))))"

definition uuid_128_to_32 :: "bt_uuid_t option \<Rightarrow> u32 option \<Rightarrow> error + bool \<times> u32" where
  "uuid_128_to_32 uuid uuid32 =
     (case uuid of
        None \<Rightarrow> Inl CheckFailed
      | Some u \<Rightarrow>
          (case uuid32 of
             None \<Rightarrow> Inl CheckFailed
           | Some out \<Rightarrow>
               if \<not> uuid_is_base (Some u) then Inr (False, out)
               else Inr (True,
                 push_bit 24 (ucast (uu u ! 0) :: 32 word) + push_bit 16 (ucast (uu u ! 1)) +
                 push_bit 8 (ucast (uu u ! 2)) + ucast (uu u ! 3))))"

subsection \<open>\<^verbatim>\<open>uuid_to_string\<close>\<close>

text \<open>
  The state of the writing loops is the buffer and the offset \<open>p\<close> in it of the write
  pointer \<^verbatim>\<open>string\<close>; \<^verbatim>\<open>end\<close> is the offset \<open>UUID_WELL_FORMED_STRING_LEN_WITH_NULL\<close>.
  The difference \<^verbatim>\<open>end - string\<close> is converted to \<^verbatim>\<open>size_t\<close> (64 bits) for
  \<^verbatim>\<open>snprintf\<close>.
\<close>

definition size_t_of_int :: "int \<Rightarrow> nat" where
  "size_t_of_int k = nat (k mod 2 ^ 64)"

function to_string_loop :: "bt_uuid_t \<Rightarrow> nat \<Rightarrow> nat \<Rightarrow> char list \<times> nat \<Rightarrow> char list \<times> nat" where
  "to_string_loop uuid i n (buf, p) =
     (if i < n then
        to_string_loop uuid (i + 1) n
          (fst (snprintf_02x buf p
                  (size_t_of_int (int UUID_WELL_FORMED_STRING_LEN_WITH_NULL - int p))
                  (uu uuid ! i)),
           p + snd (snprintf_02x buf p
                  (size_t_of_int (int UUID_WELL_FORMED_STRING_LEN_WITH_NULL - int p))
                  (uu uuid ! i)))
      else (buf, p))"
  by pat_completeness auto
termination
  by (relation "measure (\<lambda>(uuid, i, n, st). n - i)") auto

declare to_string_loop.simps [simp del]

text \<open>\<^verbatim>\<open>*string = '-'; ++string;\<close>\<close>

definition put_dash :: "char list \<times> nat \<Rightarrow> char list \<times> nat" where
  "put_dash st = ((fst st)[snd st := CHR ''-''], snd st + 1)"

definition uuid_to_string :: "bt_uuid_t option \<Rightarrow> uuid_string_t option \<Rightarrow> error + uuid_string_t" where
  "uuid_to_string uuid uuid_string =
     (case uuid of
        None \<Rightarrow> Inl CheckFailed
      | Some u \<Rightarrow>
          (case uuid_string of
             None \<Rightarrow> Inl CheckFailed
           | Some us \<Rightarrow>
               Inr (us\<lparr>string :=
                 fst (to_string_loop u 10 16
                   (put_dash (to_string_loop u 8 10
                     (put_dash (to_string_loop u 6 8
                       (put_dash (to_string_loop u 4 6
                         (put_dash (to_string_loop u 0 4 (string us, 0))))))))))\<rparr>)))"

subsection \<open>Reading the parser's input\<close>

text \<open>
  The offset in the input string of the two characters that \<^verbatim>\<open>uuid_new\<close> reads for
  byte \<open>i\<close> (the dashes at 8, 13, 18 and 23 are stepped over), and the byte it makes
  of them.
\<close>

definition pair_offset :: "nat \<Rightarrow> nat" where
  "pair_offset i =
     2 * i + (if i < 4 then 0 else if i < 6 then 1 else if i < 8 then 2 else if i < 10 then 3 else 4)"

definition pair_byte :: "char list \<Rightarrow> nat \<Rightarrow> u8" where
  "pair_byte str i =
     ucast (strtoul [char_at str (pair_offset i), char_at str (pair_offset i + 1), NUL] 16)"

text \<open>The hexadecimal digits, in both cases.\<close>

definition is_hex_char :: "char \<Rightarrow> bool" where
  "is_hex_char c = (c \<in> set ''0123456789abcdefABCDEF'')"

subsection \<open>The canonical text of a UUID\<close>

text \<open>
  The canonical string form in the words of the specification: each byte as two lowercase
  hexadecimal digits, high digit first, in groups of 4, 2, 2, 2 and 6 bytes joined by
  single dashes.
\<close>

definition hex_pair :: "u8 \<Rightarrow> char list" where
  "hex_pair b = [hex_digit (unat b div 16), hex_digit (unat b mod 16)]"

definition canonical_text :: "u8 list \<Rightarrow> char list" where
  "canonical_text bs =
     concat (map hex_pair (take 4 bs)) @ ''-'' @
     concat (map hex_pair (take 2 (drop 4 bs))) @ ''-'' @
     concat (map hex_pair (take 2 (drop 6 bs))) @ ''-'' @
     concat (map hex_pair (take 2 (drop 8 bs))) @ ''-'' @
     concat (map hex_pair (drop 10 bs))"

text \<open>
  A string in the canonical pattern: 36 characters, dashes at offsets 8, 13, 18 and 23,
  hexadecimal digits of either case elsewhere. \<open>to_lower\<close> is the case normalisation.
\<close>

definition well_formed :: "char list \<Rightarrow> bool" where
  "well_formed s =
     (length s = 36 \<and>
      list_all (\<lambda>i. if i = 8 \<or> i = 13 \<or> i = 18 \<or> i = 23 then s ! i = CHR ''-''
                     else is_hex_char (s ! i)) [0..<36])"

definition to_lower :: "char \<Rightarrow> char" where
  "to_lower c =
     (case map_of (zip ''ABCDEFGHIJKLMNOPQRSTUVWXYZ'' ''abcdefghijklmnopqrstuvwxyz'') c of
        None \<Rightarrow> c
      | Some l \<Rightarrow> l)"

section \<open>Properties\<close>

subsection \<open>Auxiliary facts\<close>

lemma unat_u8_less: "unat (b :: u8) < 256"
  using unsigned_less [of b, where 'a = nat] by simp

lemma memcmp_zero_iff:
  "n \<le> length a \<Longrightarrow> n \<le> length b \<Longrightarrow> (memcmp a b n = 0) = (take n a = take n b)"
proof (induction a b n rule: memcmp.induct)
  case (1 a as b bs n)
  have "(int (unat a) - int (unat b) = 0) = (a = b)"
    unfolding word_unat_eq_iff [of a b] by (simp only: right_minus_eq of_nat_eq_iff)
  with 1 show ?case by auto
qed simp_all

lemma uuid_is_base_loop_iff:
  "uuid_is_base_loop u i = (\<forall>j. i \<le> j \<and> j < 16 \<longrightarrow> uu u ! j = uu base_uuid ! j)"
proof (induction u i rule: uuid_is_base_loop.induct)
  case (1 uuid i)
  show ?case
  proof (cases "i < 16")
    case True
    note lt = this
    show ?thesis
    proof (cases "uu uuid ! i = uu base_uuid ! i")
      case True
      have "uuid_is_base_loop uuid i = uuid_is_base_loop uuid (i + 1)"
        using lt True by (subst uuid_is_base_loop.simps) simp
      also have "\<dots> = (\<forall>j. i + 1 \<le> j \<and> j < 16 \<longrightarrow> uu uuid ! j = uu base_uuid ! j)"
        using "1.IH" lt True by simp
      also have "\<dots> = (\<forall>j. i \<le> j \<and> j < 16 \<longrightarrow> uu uuid ! j = uu base_uuid ! j)"
      proof (intro iffI allI impI)
        fix j
        assume all: "\<forall>j. i + 1 \<le> j \<and> j < 16 \<longrightarrow> uu uuid ! j = uu base_uuid ! j"
          and j: "i \<le> j \<and> j < 16"
        show "uu uuid ! j = uu base_uuid ! j"
        proof (cases "j = i")
          case True
          with \<open>uu uuid ! i = uu base_uuid ! i\<close> show ?thesis by simp
        next
          case False
          with j have "i + 1 \<le> j \<and> j < 16" by arith
          with all show ?thesis by blast
        qed
      next
        fix j
        assume "\<forall>j. i \<le> j \<and> j < 16 \<longrightarrow> uu uuid ! j = uu base_uuid ! j"
          and "i + 1 \<le> j \<and> j < 16"
        then show "uu uuid ! j = uu base_uuid ! j" by simp
      qed
      finally show ?thesis .
    next
      case False
      have "\<not> uuid_is_base_loop uuid i"
        using lt False by (subst uuid_is_base_loop.simps) simp
      then show ?thesis using lt False by auto
    qed
  next
    case False
    then show ?thesis by (subst uuid_is_base_loop.simps) auto
  qed
qed

lemma uuid_is_base_Some:
  "uuid_is_base (Some u) = (\<forall>i\<in>{4..<16}. uu u ! i = uu base_uuid ! i)"
  by (auto simp: uuid_is_base_def uuid_is_base_loop_iff)

lemma uuid_is_empty_Some:
  assumes "valid_uuid u"
  shows "uuid_is_empty (Some u) = (uu u = replicate 16 0)"
  using assms
  by (simp add: uuid_is_empty_def valid_uuid_def sizeof_bt_uuid_t_def empty_uuid_def memcmp_zero_iff)

lemma replicate_zero_iff:
  "length xs = 16 \<Longrightarrow> (xs = replicate 16 (0::u8)) = (\<forall>i\<in>{0..<16}. xs ! i = 0)"
  by (auto simp: list_eq_iff_nth_eq)

lemma pair_offset_step:
  "(if i = 3 \<or> i = 5 \<or> i = 7 \<or> i = 9 then pair_offset i + 1 else pair_offset i) + 2
     = pair_offset (i + 1)"
  by (simp add: pair_offset_def)

lemma uuid_new_loop_inv:
  "i \<le> 16 \<Longrightarrow> length (uu uuid) = 16 \<Longrightarrow>
   uuid_new_loop str i (pair_offset i) uuid
     = uuid\<lparr>uu := take i (uu uuid) @ map (pair_byte str) [i..<16]\<rparr>"
proof (induction "16 - i" arbitrary: i uuid)
  case 0
  then have "i = 16" by simp
  with 0 show ?case by (subst uuid_new_loop.simps) (simp add: sizeof_bt_uuid_t_def)
next
  case (Suc k)
  then have lt: "i < 16" and k: "k = 16 - (i + 1)" by simp_all
  let ?uuid' = "uuid\<lparr>uu := (uu uuid)[i := pair_byte str i]\<rparr>"
  have "uuid_new_loop str i (pair_offset i) uuid
          = uuid_new_loop str (i + 1) (pair_offset (i + 1)) ?uuid'"
    using lt
    by (subst uuid_new_loop.simps)
       (simp only: sizeof_bt_uuid_t_def pair_offset_step pair_byte_def if_True)
  also have "\<dots> = ?uuid'\<lparr>uu := take (i + 1) (uu ?uuid') @ map (pair_byte str) [i + 1..<16]\<rparr>"
    using Suc.hyps(1) [OF k] lt Suc.prems by simp
  also have "\<dots> = uuid\<lparr>uu := take i (uu uuid) @ map (pair_byte str) [i..<16]\<rparr>"
    using lt Suc.prems by (simp add: take_Suc_conv_app_nth upt_conv_Cons)
  finally show ?case .
qed

lemma uuid_new_Some:
  assumes "36 \<le> strlen s"
    and "char_at s 8 = CHR ''-''" and "char_at s 13 = CHR ''-''"
    and "char_at s 18 = CHR ''-''" and "char_at s 23 = CHR ''-''"
  shows "uuid_new (Some s) = Inr (Some \<lparr>uu = map (pair_byte s) [0..<16]\<rparr>)"
proof -
  have "pair_offset 0 = 0" by (simp add: pair_offset_def)
  then have "uuid_new_loop s 0 0 \<lparr>uu = osi_calloc sizeof_bt_uuid_t\<rparr>
          = \<lparr>uu = map (pair_byte s) [0..<16]\<rparr>"
    using uuid_new_loop_inv [of 0 "\<lparr>uu = osi_calloc sizeof_bt_uuid_t\<rparr>" s]
    by (simp add: osi_calloc_def sizeof_bt_uuid_t_def)
  with assms show ?thesis
    by (simp add: uuid_new_def UUID_WELL_FORMED_STRING_LEN_def)
qed

lemma is_hex_char_code:
  "is_hex_char c =
     ((of_char c :: nat) \<in> {48, 49, 50, 51, 52, 53, 54, 55, 56, 57,
        97, 98, 99, 100, 101, 102, 65, 66, 67, 68, 69, 70})"
proof -
  have "((of_char c :: nat) \<in> of_char ` set ''0123456789abcdefABCDEF'') = is_hex_char c"
    unfolding is_hex_char_def by (simp only: inj_image_mem_iff [OF inj_of_char])
  then show ?thesis by simp
qed

lemma isxdigit_iff: "isxdigit c = is_hex_char c"
proof -
  have "isxdigit c =
      ((48 \<le> (of_char c :: nat) \<and> (of_char c :: nat) \<le> 57) \<or>
       (65 \<le> (of_char c :: nat) \<and> (of_char c :: nat) \<le> 70) \<or>
       (97 \<le> (of_char c :: nat) \<and> (of_char c :: nat) \<le> 102))"
    by (auto simp: isxdigit_def digit_value_def Let_def)
  also have "\<dots> = is_hex_char c"
    unfolding is_hex_char_code by (simp only: insert_iff empty_iff) arith
  finally show ?thesis .
qed

lemma digit_value_NUL: "digit_value NUL = None"
  by (simp add: digit_value_def NUL_def)

lemma not_isspace_NUL: "\<not> isspace NUL"
  by (simp add: isspace_def NUL_def)

lemma strtoul_no_digit:
  assumes "\<not> isxdigit a" and "\<not> isxdigit b"
  shows "strtoul [a, b, NUL] 16 = 0"
  using assms
  by (auto simp: strtoul_def skip_sign_def skip_prefix_def isxdigit_def digit_value_NUL
      not_isspace_NUL ULONG_MAX_def Let_def split: option.splits if_splits)

lemma uuid_new_result:
  "uuid_new (Some s) = Inr None \<or> (\<exists>u. uuid_new (Some s) = Inr (Some u) \<and> valid_uuid u)"
proof (cases "36 \<le> strlen s \<and> char_at s 8 = CHR ''-'' \<and> char_at s 13 = CHR ''-'' \<and>
    char_at s 18 = CHR ''-'' \<and> char_at s 23 = CHR ''-''")
  case True
  then show ?thesis
    by (simp add: uuid_new_Some valid_uuid_def sizeof_bt_uuid_t_def)
next
  case False
  then show ?thesis
    by (auto simp: uuid_new_def UUID_WELL_FORMED_STRING_LEN_def)
qed

lemma narrow16_unat:
  fixes a b :: u8
  shows "unat (ucast (push_bit 8 (ucast a :: 32 word) + (ucast b :: 32 word)) :: 16 word)
           = unat a * 2 ^ 8 + unat b"
  using unat_u8_less [of a] unat_u8_less [of b]
  by (simp add: unsigned_ucast_eq unsigned_push_bit_eq unat_word_ariths take_bit_eq_mod push_bit_eq_mult)

lemma narrow32_unat:
  fixes a b c d :: u8
  shows "unat (push_bit 24 (ucast a :: 32 word) + push_bit 16 (ucast b) + push_bit 8 (ucast c) + ucast d)
           = unat a * 2 ^ 24 + unat b * 2 ^ 16 + unat c * 2 ^ 8 + unat d"
  using unat_u8_less [of a] unat_u8_less [of b] unat_u8_less [of c] unat_u8_less [of d]
  by (simp add: unsigned_ucast_eq unsigned_push_bit_eq unat_word_ariths take_bit_eq_mod push_bit_eq_mult)

lemma uuid_new_1101:
  "uuid_new (Some ''00001101-0000-1000-8000-00805f9b34fb'') =
     Inr (Some \<lparr>uu = [0, 0, 0x11, 0x01, 0, 0, 0x10, 0, 0x80, 0, 0, 0x80, 0x5f, 0x9b, 0x34, 0xfb]\<rparr>)"
  by code_simp

lemma list_16:
  assumes "length (xs :: 'a list) = 16"
  shows "xs = [xs ! 0, xs ! 1, xs ! 2, xs ! 3, xs ! 4, xs ! 5, xs ! 6, xs ! 7,
               xs ! 8, xs ! 9, xs ! 10, xs ! 11, xs ! 12, xs ! 13, xs ! 14, xs ! 15]"
proof -
  from assms obtain a0 a1 a2 a3 a4 a5 a6 a7 a8 a9 a10 a11 a12 a13 a14 a15
    where "xs = [a0, a1, a2, a3, a4, a5, a6, a7, a8, a9, a10, a11, a12, a13, a14, a15]"
    by (auto simp: numeral_eq_Suc length_Suc_conv)
  then show ?thesis by simp
qed

lemma format_02x_byte: "format_02x (unat (b :: u8)) = hex_pair b"
proof (cases "unat b < 16")
  case True
  then have "hex_of_nat (unat b) = [hex_digit (unat b)]" by (subst hex_of_nat.simps) simp
  with True show ?thesis by (simp add: format_02x_def hex_pair_def hex_digit_def)
next
  case False
  have "unat b < 256" by (rule unat_u8_less)
  then have d: "unat b div 16 < 16" by simp
  have "hex_of_nat (unat b) = hex_of_nat (unat b div 16) @ [hex_digit (unat b mod 16)]"
    using False by (subst hex_of_nat.simps) simp
  also have "hex_of_nat (unat b div 16) = [hex_digit (unat b div 16)]"
    using d by (subst hex_of_nat.simps) simp
  finally show ?thesis by (simp add: format_02x_def hex_pair_def)
qed

lemma snprintf_step:
  assumes "p + 2 < 37"
  shows "snprintf_02x buf p (size_t_of_int (int UUID_WELL_FORMED_STRING_LEN_WITH_NULL - int p)) b
           = (buf[p := hex_digit (unat b div 16), Suc p := hex_digit (unat b mod 16),
                  Suc (Suc p) := NUL], 2)"
proof -
  have "size_t_of_int (int UUID_WELL_FORMED_STRING_LEN_WITH_NULL - int p) = 37 - p"
    using assms by (simp add: size_t_of_int_def UUID_WELL_FORMED_STRING_LEN_WITH_NULL_def nat_diff_distrib)
  moreover have "3 \<le> 37 - p" using assms by simp
  ultimately show ?thesis
    using assms by (simp add: snprintf_02x_def format_02x_byte hex_pair_def)
qed

lemma to_string_loop_inv:
  assumes "i \<le> n" and "length buf = 37" and "p + 2 * (n - i) < 37"
  shows "snd (to_string_loop u i n (buf, p)) = p + 2 * (n - i) \<and>
         length (fst (to_string_loop u i n (buf, p))) = 37 \<and>
         take (p + 2 * (n - i)) (fst (to_string_loop u i n (buf, p)))
           = take p buf @ concat (map (\<lambda>k. hex_pair (uu u ! k)) [i..<n]) \<and>
         (i < n \<longrightarrow> fst (to_string_loop u i n (buf, p)) ! (p + 2 * (n - i)) = NUL)"
  using assms
proof (induction "n - i" arbitrary: i buf p)
  case 0
  then have "to_string_loop u i n (buf, p) = (buf, p)"
    by (subst to_string_loop.simps) simp
  with 0 show ?case by simp
next
  case (Suc k)
  then have lt: "i < n" and k: "k = n - (i + 1)" by simp_all
  let ?buf1 = "buf[p := hex_digit (unat (uu u ! i) div 16),
                   Suc p := hex_digit (unat (uu u ! i) mod 16), Suc (Suc p) := NUL]"
  let ?r = "to_string_loop u (i + 1) n (?buf1, p + 2)"
  from Suc.prems lt have p: "p + 2 < 37" by simp
  have step: "to_string_loop u i n (buf, p) = ?r"
    using lt by (subst to_string_loop.simps) (simp add: snprintf_step [OF p])
  have len1: "length ?buf1 = 37" using Suc.prems by simp
  have bound: "p + 2 + 2 * (n - (i + 1)) < 37" using Suc.prems lt by simp
  have sum: "p + 2 + 2 * (n - (i + 1)) = p + 2 * (n - i)" using lt by simp
  have le: "i + 1 \<le> n" using lt by simp
  note IH = Suc.hyps(1) [OF k le len1 bound, unfolded sum]
  from IH have a: "snd ?r = p + 2 * (n - i)" and b: "length (fst ?r) = 37"
    and c: "take (p + 2 * (n - i)) (fst ?r)
              = take (p + 2) ?buf1 @ concat (map (\<lambda>k. hex_pair (uu u ! k)) [i + 1..<n])"
    and d: "i + 1 < n \<longrightarrow> fst ?r ! (p + 2 * (n - i)) = NUL"
    by blast+
  have take1: "take (p + 2) ?buf1 = take p buf @ hex_pair (uu u ! i)"
    using Suc.prems p by (simp add: take_Suc_conv_app_nth hex_pair_def nth_list_update)
  have upt: "[i..<n] = i # [i + 1..<n]" using lt by (simp add: upt_conv_Cons)
  have txteq: "take (p + 2) ?buf1 @ concat (map (\<lambda>k. hex_pair (uu u ! k)) [i + 1..<n])
               = take p buf @ concat (map (\<lambda>k. hex_pair (uu u ! k)) [i..<n])"
    unfolding take1 upt by simp
  have nul: "fst ?r ! (p + 2 * (n - i)) = NUL"
  proof (cases "i + 1 < n")
    case True
    with d show ?thesis by blast
  next
    case False
    with lt have e: "i + 1 = n" by simp
    then have "?r = (?buf1, p + 2)" by (subst to_string_loop.simps) simp
    moreover have "p + 2 * (n - i) = Suc (Suc p)" using e by simp
    ultimately show ?thesis using len1 p by simp
  qed
  show ?case
    unfolding step using a b c [unfolded txteq] nul by blast
qed

lemma put_dash_inv:
  assumes "snd st < length (fst st)"
  shows "snd (put_dash st) = snd st + 1 \<and> length (fst (put_dash st)) = length (fst st) \<and>
         take (snd st + 1) (fst (put_dash st)) = take (snd st) (fst st) @ ''-''"
  using assms by (simp add: put_dash_def take_Suc_conv_app_nth)

lemma canonical_text_nth:
  assumes "length bs = 16"
  shows "canonical_text bs =
     concat (map (\<lambda>k. hex_pair (bs ! k)) [0..<4]) @ ''-'' @
     concat (map (\<lambda>k. hex_pair (bs ! k)) [4..<6]) @ ''-'' @
     concat (map (\<lambda>k. hex_pair (bs ! k)) [6..<8]) @ ''-'' @
     concat (map (\<lambda>k. hex_pair (bs ! k)) [8..<10]) @ ''-'' @
     concat (map (\<lambda>k. hex_pair (bs ! k)) [10..<16])"
proof -
  have z: "[0..<4] = [0, 1, 2, 3]" by code_simp
  show ?thesis
    by (subst (1) list_16 [OF assms]) (simp add: canonical_text_def z)
qed

lemma uuid_to_string_Some:
  assumes "valid_uuid u" and "valid_uuid_string us"
  shows "uuid_to_string (Some u) (Some us) = Inr (us\<lparr>string := canonical_text (uu u) @ [NUL]\<rparr>)"
proof -
  define hp where "hp = (\<lambda>k. hex_pair (uu u ! k))"
  define s1 where "s1 = to_string_loop u 0 4 (string us, 0)"
  define d1 where "d1 = put_dash s1"
  define s2 where "s2 = to_string_loop u 4 6 d1"
  define d2 where "d2 = put_dash s2"
  define s3 where "s3 = to_string_loop u 6 8 d2"
  define d3 where "d3 = put_dash s3"
  define s4 where "s4 = to_string_loop u 8 10 d3"
  define d4 where "d4 = put_dash s4"
  define s5 where "s5 = to_string_loop u 10 16 d4"
  have len0: "length (string us) = 37"
    using assms(2) by (simp add: valid_uuid_string_def UUID_WELL_FORMED_STRING_LEN_WITH_NULL_def)
  have l1: "snd s1 = 8 \<and> length (fst s1) = 37 \<and> take 8 (fst s1) = concat (map hp [0..<4])"
    using to_string_loop_inv [of 0 4 "string us" 0 u] len0 by (simp add: hp_def s1_def)
  have e1: "snd d1 = 9 \<and> length (fst d1) = 37 \<and>
      take 9 (fst d1) = concat (map hp [0..<4]) @ ''-''"
    using put_dash_inv [of s1] l1 by (simp add: d1_def)
  have l2: "snd s2 = 13 \<and> length (fst s2) = 37 \<and>
      take 13 (fst s2) = concat (map hp [0..<4]) @ ''-'' @ concat (map hp [4..<6])"
    using to_string_loop_inv [of 4 6 "fst d1" "snd d1" u] e1
    by (cases d1) (simp add: hp_def s2_def)
  have e2: "snd d2 = 14 \<and> length (fst d2) = 37 \<and>
      take 14 (fst d2) = concat (map hp [0..<4]) @ ''-'' @ concat (map hp [4..<6]) @ ''-''"
    using put_dash_inv [of s2] l2 by (simp add: d2_def)
  have l3: "snd s3 = 18 \<and> length (fst s3) = 37 \<and>
      take 18 (fst s3) = concat (map hp [0..<4]) @ ''-'' @ concat (map hp [4..<6]) @ ''-'' @
        concat (map hp [6..<8])"
    using to_string_loop_inv [of 6 8 "fst d2" "snd d2" u] e2
    by (cases d2) (simp add: hp_def s3_def)
  have e3: "snd d3 = 19 \<and> length (fst d3) = 37 \<and>
      take 19 (fst d3) = concat (map hp [0..<4]) @ ''-'' @ concat (map hp [4..<6]) @ ''-'' @
        concat (map hp [6..<8]) @ ''-''"
    using put_dash_inv [of s3] l3 by (simp add: d3_def)
  have l4: "snd s4 = 23 \<and> length (fst s4) = 37 \<and>
      take 23 (fst s4) = concat (map hp [0..<4]) @ ''-'' @ concat (map hp [4..<6]) @ ''-'' @
        concat (map hp [6..<8]) @ ''-'' @ concat (map hp [8..<10])"
    using to_string_loop_inv [of 8 10 "fst d3" "snd d3" u] e3
    by (cases d3) (simp add: hp_def s4_def)
  have e4: "snd d4 = 24 \<and> length (fst d4) = 37 \<and>
      take 24 (fst d4) = concat (map hp [0..<4]) @ ''-'' @ concat (map hp [4..<6]) @ ''-'' @
        concat (map hp [6..<8]) @ ''-'' @ concat (map hp [8..<10]) @ ''-''"
    using put_dash_inv [of s4] l4 by (simp add: d4_def)
  have l5: "length (fst s5) = 37 \<and>
      take 36 (fst s5) = concat (map hp [0..<4]) @ ''-'' @ concat (map hp [4..<6]) @ ''-'' @
        concat (map hp [6..<8]) @ ''-'' @ concat (map hp [8..<10]) @ ''-'' @
        concat (map hp [10..<16]) \<and>
      fst s5 ! 36 = NUL"
    using to_string_loop_inv [of 10 16 "fst d4" "snd d4" u] e4
    by (cases d4) (simp add: hp_def s5_def)
  have "length (uu u) = 16" using assms(1) by (simp add: valid_uuid_def sizeof_bt_uuid_t_def)
  then have ct: "take 36 (fst s5) = canonical_text (uu u)"
    using l5 by (simp add: canonical_text_nth hp_def)
  from l5 have len5: "length (fst s5) = 37" and n5: "fst s5 ! 36 = NUL" by blast+
  have "fst s5 = take (Suc 36) (fst s5)" using len5 by simp
  also have "\<dots> = take 36 (fst s5) @ [fst s5 ! 36]"
    using len5 by (simp only: take_Suc_conv_app_nth)
  finally have "fst s5 = canonical_text (uu u) @ [NUL]" unfolding ct n5 .
  then show ?thesis
    by (simp add: uuid_to_string_def s5_def d4_def s4_def d3_def s3_def d2_def s2_def d1_def s1_def)
qed

lemma digit_not_space:
  "digit_value a = Some x \<Longrightarrow> \<not> isspace a \<and> a \<noteq> CHR ''-'' \<and> a \<noteq> CHR ''+''"
  by (auto simp: digit_value_def isspace_def Let_def split: if_splits)

lemma strtoul_two_digits:
  assumes "digit_value a = Some x" and "x < 16" and "digit_value b = Some y" and "y < 16"
  shows "strtoul [a, b, NUL] 16 = word_of_nat (x * 16 + y)"
proof -
  from digit_not_space [OF assms(1)]
  have a: "\<not> isspace a" "a \<noteq> CHR ''-''" "a \<noteq> CHR ''+''" by simp_all
  have nx: "\<not> isxdigit NUL" by (simp add: isxdigit_def digit_value_NUL)
  show ?thesis
    using assms a nx
    by (simp add: strtoul_def skip_sign_def skip_prefix_def digit_value_NUL Let_def ULONG_MAX_def)
qed

lemma hex_char_digit:
  assumes "is_hex_char a"
  shows "\<exists>x<16. digit_value a = Some x \<and> hex_digit x = to_lower a"
proof -
  from assms have "a = CHR ''0'' \<or> a = CHR ''1'' \<or> a = CHR ''2'' \<or> a = CHR ''3'' \<or>
      a = CHR ''4'' \<or> a = CHR ''5'' \<or> a = CHR ''6'' \<or> a = CHR ''7'' \<or> a = CHR ''8'' \<or>
      a = CHR ''9'' \<or> a = CHR ''a'' \<or> a = CHR ''b'' \<or> a = CHR ''c'' \<or> a = CHR ''d'' \<or>
      a = CHR ''e'' \<or> a = CHR ''f'' \<or> a = CHR ''A'' \<or> a = CHR ''B'' \<or> a = CHR ''C'' \<or>
      a = CHR ''D'' \<or> a = CHR ''E'' \<or> a = CHR ''F''"
    by (simp add: is_hex_char_def)
  then show ?thesis
    by (elim disjE) (simp_all add: digit_value_def hex_digit_def to_lower_def)
qed

lemma hex_digit_value:
  assumes "d < 16"
  shows "digit_value (hex_digit d) = Some d"
proof -
  have "list_all (\<lambda>d. digit_value (hex_digit d) = Some d) [0..<16]" by code_simp
  with assms show ?thesis by (simp add: list_all_iff)
qed

lemma hex_digit_lower:
  assumes "d < 16"
  shows "hex_digit d \<in> set ''0123456789abcdef''"
proof -
  have "list_all (\<lambda>d. hex_digit d \<in> set ''0123456789abcdef'') [0..<16]" by code_simp
  with assms show ?thesis by (simp add: list_all_iff)
qed

lemma ucast_of_nat_byte:
  assumes "n < 256"
  shows "(ucast (word_of_nat n :: ulong) :: u8) = word_of_nat n"
proof -
  have "take_bit 64 n = n" using assms by (simp add: take_bit_nat_eq_self)
  then show ?thesis by (simp add: unsigned_of_nat)
qed

lemma unat_of_nat_byte:
  assumes "n < 256"
  shows "unat (word_of_nat n :: u8) = n"
  using assms by (simp only: unat_of_nat) simp

lemma pair_value:
  "(ucast (strtoul (hex_pair b @ [NUL]) 16) :: u8) = b"
proof -
  have lt: "unat b < 256" by (rule unat_u8_less)
  then have hi: "unat b div 16 < 16" by simp
  have lo: "unat b mod 16 < 16" by simp
  have n: "unat b div 16 * 16 + unat b mod 16 = unat b" by simp
  have "strtoul (hex_pair b @ [NUL]) 16 = word_of_nat (unat b div 16 * 16 + unat b mod 16)"
    unfolding hex_pair_def append.simps
    by (rule strtoul_two_digits [OF hex_digit_value [OF hi] hi hex_digit_value [OF lo] lo])
  then have "strtoul (hex_pair b @ [NUL]) 16 = word_of_nat (unat b)"
    unfolding n .
  then have "(ucast (strtoul (hex_pair b @ [NUL]) 16) :: u8) = word_of_nat (unat b)"
    using lt by (simp only: ucast_of_nat_byte)
  then show ?thesis by simp
qed

lemma hex_pair_parsed:
  assumes "is_hex_char a" and "is_hex_char b"
  shows "hex_pair (ucast (strtoul [a, b, NUL] 16)) = [to_lower a, to_lower b]"
proof -
  from hex_char_digit [OF assms(1)] obtain x
    where x: "x < 16" "digit_value a = Some x" "hex_digit x = to_lower a" by blast
  from hex_char_digit [OF assms(2)] obtain y
    where y: "y < 16" "digit_value b = Some y" "hex_digit y = to_lower b" by blast
  have n: "x * 16 + y < 256" using x(1) y(1) by simp
  have "strtoul [a, b, NUL] 16 = word_of_nat (x * 16 + y)"
    by (rule strtoul_two_digits [OF x(2) x(1) y(2) y(1)])
  then have "(ucast (strtoul [a, b, NUL] 16) :: u8) = word_of_nat (x * 16 + y)"
    using n by (simp only: ucast_of_nat_byte)
  then have "unat (ucast (strtoul [a, b, NUL] 16) :: u8) = x * 16 + y"
    using n by (simp only: unat_of_nat_byte)
  then show ?thesis
    using x y by (simp add: hex_pair_def)
qed

lemma hex_char_value:
  assumes "is_hex_char a"
  shows "\<exists>x<16. digit_value a = Some x"
  using hex_char_digit [OF assms] by blast

lemma strtoul_first_other:
  assumes "\<not> is_hex_char a" and "\<not> isspace a" and "a \<noteq> CHR ''-''" and "a \<noteq> CHR ''+''"
  shows "strtoul [a, b, NUL] 16 = 0"
proof -
  have "is_hex_char (CHR ''0'')" by (simp add: is_hex_char_def)
  with assms(1) have z: "a \<noteq> CHR ''0''" by auto
  from assms(1) have "\<not> isxdigit a" by (simp add: isxdigit_iff)
  then have "strtoul_digits 16 [a, b, NUL] 0 = 0"
    by (cases "digit_value a") (simp_all add: isxdigit_def)
  then show ?thesis
    using assms z by (simp add: strtoul_def skip_sign_def skip_prefix_def Let_def ULONG_MAX_def)
qed

lemma strtoul_digit_then_other:
  assumes "is_hex_char a" and "\<not> is_hex_char b"
  shows "strtoul [a, b, NUL] 16 = word_of_nat (the (digit_value a))"
proof -
  from hex_char_value [OF assms(1)] obtain x where x: "x < 16" "digit_value a = Some x" by blast
  from digit_not_space [OF x(2)]
  have a: "\<not> isspace a" "a \<noteq> CHR ''-''" "a \<noteq> CHR ''+''" by simp_all
  have nx: "\<not> isxdigit NUL" by (simp add: isxdigit_def digit_value_NUL)
  from assms(2) have "\<not> isxdigit b" by (simp add: isxdigit_iff)
  then have "strtoul_digits 16 [b, NUL] (int x) = int x"
    by (cases "digit_value b") (simp_all add: isxdigit_def)
  then show ?thesis
    using x a nx
    by (simp add: strtoul_def skip_sign_def skip_prefix_def Let_def ULONG_MAX_def)
qed

lemma strtoul_space_then_digit:
  assumes "isspace a \<or> a = CHR ''+''" and "is_hex_char b"
  shows "strtoul [a, b, NUL] 16 = word_of_nat (the (digit_value b))"
proof -
  from hex_char_value [OF assms(2)] obtain y where y: "y < 16" "digit_value b = Some y" by blast
  from digit_not_space [OF y(2)]
  have b: "\<not> isspace b" "b \<noteq> CHR ''-''" "b \<noteq> CHR ''+''" by simp_all
  have sp: "\<not> isspace (CHR ''+'')" "\<not> isspace (CHR ''-'')" by (simp_all add: isspace_def)
  have m: "isspace a \<Longrightarrow> a \<noteq> CHR ''-''" using sp by auto
  show ?thesis
    using assms(1) y b sp m
    by (auto simp: strtoul_def skip_sign_def skip_prefix_def digit_value_NUL not_isspace_NUL
        Let_def ULONG_MAX_def)
qed

lemma strtoul_minus_then_digit:
  assumes "is_hex_char b"
  shows "strtoul [CHR ''-'', b, NUL] 16 = - word_of_nat (the (digit_value b))"
proof -
  from hex_char_value [OF assms] obtain y where y: "y < 16" "digit_value b = Some y" by blast
  have sp: "\<not> isspace (CHR ''-'')" by (simp add: isspace_def)
  show ?thesis
    using y sp
    by (auto simp: strtoul_def skip_sign_def skip_prefix_def digit_value_NUL
        Let_def ULONG_MAX_def)
qed

lemma ucast_ulong_byte:
  "(ucast (word_of_int k :: ulong) :: u8) = word_of_int k"
  by (rule ucast_down_wi) (simp add: is_down)

lemma ucast_ulong_byte_nat:
  "(ucast (word_of_nat n :: ulong) :: u8) = word_of_nat n"
  using ucast_ulong_byte [of "int n"] by simp

lemma ucast_ulong_byte_minus:
  "(ucast (- word_of_nat n :: ulong) :: u8) = - word_of_nat n"
  using ucast_ulong_byte [of "- int n"] by simp

lemma strlen_append_NUL:
  "NUL \<notin> set t \<Longrightarrow> strlen (t @ NUL # r) = length t"
  by (induction t) auto

lemma c_str_append_NUL:
  "NUL \<notin> set t \<Longrightarrow> c_str (t @ NUL # r) = t"
  by (simp add: c_str_def strlen_append_NUL)

lemma hex_digit_not_NUL: "d < 16 \<Longrightarrow> hex_digit d \<noteq> NUL"
  using hex_digit_lower [of d] by (auto simp: NUL_def)

lemma hex_pair_no_NUL: "NUL \<notin> set (hex_pair b)"
proof -
  have "unat b < 256" by (rule unat_u8_less)
  then have "unat b div 16 < 16" and "unat b mod 16 < 16" by simp_all
  then show ?thesis by (simp add: hex_pair_def hex_digit_not_NUL [symmetric])
qed

lemma hex_pair_lower: "set (hex_pair b) \<subseteq> set ''0123456789abcdef''"
proof -
  have "unat b < 256" by (rule unat_u8_less)
  then have "unat b div 16 < 16" and "unat b mod 16 < 16" by simp_all
  then show ?thesis
    using hex_digit_lower [of "unat b div 16"] hex_digit_lower [of "unat b mod 16"]
    by (simp add: hex_pair_def)
qed

lemma canonical_text_16:
  "canonical_text [b0, b1, b2, b3, b4, b5, b6, b7, b8, b9, b10, b11, b12, b13, b14, b15] =
     hex_pair b0 @ hex_pair b1 @ hex_pair b2 @ hex_pair b3 @ ''-'' @
     hex_pair b4 @ hex_pair b5 @ ''-'' @ hex_pair b6 @ hex_pair b7 @ ''-'' @
     hex_pair b8 @ hex_pair b9 @ ''-'' @
     hex_pair b10 @ hex_pair b11 @ hex_pair b12 @ hex_pair b13 @ hex_pair b14 @ hex_pair b15"
  by (simp add: canonical_text_def)

lemma canonical_text_no_NUL:
  assumes "length bs = 16"
  shows "NUL \<notin> set (canonical_text bs)"
  by (subst list_16 [OF assms])
     (simp add: canonical_text_16 hex_pair_no_NUL NUL_def [symmetric], simp add: NUL_def)

lemma length_canonical_text:
  assumes "length bs = 16"
  shows "length (canonical_text bs) = 36"
  by (subst list_16 [OF assms]) (simp add: canonical_text_16 hex_pair_def)

lemma canonical_text_pairs:
  assumes "length bs = 16" and "i < 16"
  shows "canonical_text bs ! pair_offset i = hex_digit (unat (bs ! i) div 16) \<and>
         canonical_text bs ! (pair_offset i + 1) = hex_digit (unat (bs ! i) mod 16)"
proof -
  obtain b0 b1 b2 b3 b4 b5 b6 b7 b8 b9 b10 b11 b12 b13 b14 b15
    where bs: "bs = [b0, b1, b2, b3, b4, b5, b6, b7, b8, b9, b10, b11, b12, b13, b14, b15]"
    using list_16 [OF assms(1)] by blast
  have "list_all (\<lambda>i. canonical_text bs ! pair_offset i = hex_digit (unat (bs ! i) div 16) \<and>
         canonical_text bs ! (pair_offset i + 1) = hex_digit (unat (bs ! i) mod 16)) [0..<16]"
    unfolding bs canonical_text_16 hex_pair_def
    by (simp add: upt_conv_Cons pair_offset_def)
  with assms(2) show ?thesis by (simp add: list_all_iff)
qed

lemma canonical_text_dashes:
  assumes "length bs = 16"
  shows "canonical_text bs ! 8 = CHR ''-'' \<and> canonical_text bs ! 13 = CHR ''-'' \<and>
         canonical_text bs ! 18 = CHR ''-'' \<and> canonical_text bs ! 23 = CHR ''-''"
  by (subst (1 2 3 4) list_16 [OF assms]) (simp add: canonical_text_16 hex_pair_def)

lemma canonical_text_chars:
  assumes "length bs = 16"
  shows "set (canonical_text bs) \<subseteq> set ''0123456789abcdef-''"
proof -
  have "\<And>b. set (hex_pair b) \<subseteq> set ''0123456789abcdef-''"
    using hex_pair_lower by fastforce
  then show ?thesis
    by (subst list_16 [OF assms]) (simp add: canonical_text_16)
qed

lemma pair_offset_bound: "i < 16 \<Longrightarrow> pair_offset i + 1 < 36"
  by (simp add: pair_offset_def)

lemma pair_value_chars:
  "(ucast (strtoul [hex_digit (unat b div 16), hex_digit (unat b mod 16), NUL] 16) :: u8) = b"
  using pair_value [of b] by (simp add: hex_pair_def)

lemma parse_canonical:
  assumes "length bs = 16"
  shows "uuid_new (Some (canonical_text bs @ NUL # r)) = Inr (Some \<lparr>uu = bs\<rparr>)"
proof -
  let ?str = "canonical_text bs @ NUL # r"
  have len: "length (canonical_text bs) = 36" by (rule length_canonical_text [OF assms])
  have nth: "char_at ?str k = canonical_text bs ! k" if "k < 36" for k
    using that len by (simp add: char_at_def nth_append)
  have "strlen ?str = 36"
    using canonical_text_no_NUL [OF assms] len by (simp add: strlen_append_NUL)
  moreover have "char_at ?str 8 = CHR ''-''" "char_at ?str 13 = CHR ''-''"
    "char_at ?str 18 = CHR ''-''" "char_at ?str 23 = CHR ''-''"
    using canonical_text_dashes [OF assms] by (simp_all add: nth)
  ultimately have "uuid_new (Some ?str) = Inr (Some \<lparr>uu = map (pair_byte ?str) [0..<16]\<rparr>)"
    by (intro uuid_new_Some) simp_all
  moreover have "map (pair_byte ?str) [0..<16] = bs"
  proof (rule nth_equalityI)
    show "length (map (pair_byte ?str) [0..<16]) = length bs" using assms by simp
  next
    fix i
    assume "i < length (map (pair_byte ?str) [0..<16])"
    then have i: "i < 16" by simp
    from pair_offset_bound [OF i] have "pair_offset i < 36" by simp
    then have "pair_byte ?str i = bs ! i"
      using canonical_text_pairs [OF assms i] pair_offset_bound [OF i]
      by (simp add: pair_byte_def nth pair_value_chars)
    with i show "map (pair_byte ?str) [0..<16] ! i = bs ! i" by simp
  qed
  ultimately show ?thesis by simp
qed

lemma list_36:
  assumes "length (xs :: 'a list) = 36"
  shows "\<exists>c0 c1 c2 c3 c4 c5 c6 c7 c8 c9 c10 c11 c12 c13 c14 c15 c16 c17 c18 c19 c20 c21 c22
            c23 c24 c25 c26 c27 c28 c29 c30 c31 c32 c33 c34 c35.
           xs = [c0, c1, c2, c3, c4, c5, c6, c7, c8, c9, c10, c11, c12, c13, c14, c15, c16, c17,
                 c18, c19, c20, c21, c22, c23, c24, c25, c26, c27, c28, c29, c30, c31, c32, c33,
                 c34, c35]"
  using assms by (auto simp: numeral_eq_Suc length_Suc_conv)

lemma strlen_no_NUL: "NUL \<notin> set s \<Longrightarrow> strlen s = length s"
  by (induction s) auto

lemma is_hex_char_not_NUL: "is_hex_char c \<Longrightarrow> c \<noteq> NUL"
  by (auto simp: is_hex_char_def NUL_def)

lemma to_lower_dash: "to_lower (CHR ''-'') = CHR ''-''"
  by (simp add: to_lower_def)

lemma well_formed_parse_format:
  assumes "well_formed s"
  shows "36 \<le> strlen s \<and> char_at s 8 = CHR ''-'' \<and> char_at s 13 = CHR ''-'' \<and>
         char_at s 18 = CHR ''-'' \<and> char_at s 23 = CHR ''-'' \<and>
         canonical_text (map (pair_byte s) [0..<16]) = map to_lower s"
proof -
  from assms have "length s = 36" by (simp add: well_formed_def)
  from list_36 [OF this] obtain c0 c1 c2 c3 c4 c5 c6 c7 c8 c9 c10 c11 c12 c13 c14 c15 c16 c17
    c18 c19 c20 c21 c22 c23 c24 c25 c26 c27 c28 c29 c30 c31 c32 c33 c34 c35
    where s: "s = [c0, c1, c2, c3, c4, c5, c6, c7, c8, c9, c10, c11, c12, c13, c14, c15, c16, c17,
                   c18, c19, c20, c21, c22, c23, c24, c25, c26, c27, c28, c29, c30, c31, c32, c33,
                   c34, c35]"
    by (elim exE) (rule that)
  from assms have h:
    "is_hex_char c0" "is_hex_char c1" "is_hex_char c2" "is_hex_char c3"
    "is_hex_char c4" "is_hex_char c5" "is_hex_char c6" "is_hex_char c7"
    "is_hex_char c9" "is_hex_char c10" "is_hex_char c11" "is_hex_char c12"
    "is_hex_char c14" "is_hex_char c15" "is_hex_char c16" "is_hex_char c17"
    "is_hex_char c19" "is_hex_char c20" "is_hex_char c21" "is_hex_char c22"
    "is_hex_char c24" "is_hex_char c25" "is_hex_char c26" "is_hex_char c27"
    "is_hex_char c28" "is_hex_char c29" "is_hex_char c30" "is_hex_char c31"
    "is_hex_char c32" "is_hex_char c33" "is_hex_char c34" "is_hex_char c35"
    and d: "c8 = CHR ''-''" "c13 = CHR ''-''" "c18 = CHR ''-''" "c23 = CHR ''-''"
    unfolding well_formed_def s by (simp_all add: upt_conv_Cons)
  have dn: "CHR ''-'' \<noteq> NUL" by (simp add: NUL_def)
  have "NUL \<notin> set s"
    unfolding s d using h [THEN is_hex_char_not_NUL] dn by (simp add: eq_commute [of NUL])
  then have len: "strlen s = 36" using \<open>length s = 36\<close> by (simp add: strlen_no_NUL)
  have dashes: "char_at s 8 = CHR ''-''" "char_at s 13 = CHR ''-''"
    "char_at s 18 = CHR ''-''" "char_at s 23 = CHR ''-''"
    unfolding s d by (simp_all add: char_at_def)
  have bytes: "map (pair_byte s) [0..<16] =
      [ucast (strtoul [c0, c1, NUL] 16), ucast (strtoul [c2, c3, NUL] 16),
       ucast (strtoul [c4, c5, NUL] 16), ucast (strtoul [c6, c7, NUL] 16),
       ucast (strtoul [c9, c10, NUL] 16), ucast (strtoul [c11, c12, NUL] 16),
       ucast (strtoul [c14, c15, NUL] 16), ucast (strtoul [c16, c17, NUL] 16),
       ucast (strtoul [c19, c20, NUL] 16), ucast (strtoul [c21, c22, NUL] 16),
       ucast (strtoul [c24, c25, NUL] 16), ucast (strtoul [c26, c27, NUL] 16),
       ucast (strtoul [c28, c29, NUL] 16), ucast (strtoul [c30, c31, NUL] 16),
       ucast (strtoul [c32, c33, NUL] 16), ucast (strtoul [c34, c35, NUL] 16)]"
    unfolding s by (simp add: upt_conv_Cons pair_byte_def pair_offset_def char_at_def)
  have "canonical_text (map (pair_byte s) [0..<16]) = map to_lower s"
    unfolding bytes canonical_text_16
    using h by (simp add: hex_pair_parsed s d to_lower_dash)
  with len dashes show ?thesis by simp
qed

lemma valid_uuid_string_new: "valid_uuid_string uuid_string_new"
  by (simp add: valid_uuid_string_def uuid_string_new_def osi_calloc_def)

subsection \<open>The base test\<close>

text \<open>
  C6. \<^verbatim>\<open>uuid_is_base\<close> is true of a UUID exactly when its bytes 4 to 15 are those of
  \<open>base_uuid\<close>; two UUIDs that agree on bytes 4 to 15 get the same answer, whatever their
  bytes 0 to 3; for an absent reference the answer is false.
\<close>

theorem uuid_is_base_iff:
  "uuid_is_base (Some u) = (\<forall>i\<in>{4..<16}. uu u ! i = uu base_uuid ! i) \<and>
   ((\<forall>i\<in>{4..<16}. uu u ! i = uu v ! i) \<longrightarrow> uuid_is_base (Some u) = uuid_is_base (Some v)) \<and>
   uuid_is_base None = False"
  by (simp add: uuid_is_base_Some) (simp add: uuid_is_base_def)

theorem uuid_is_base_iff_witness:
  "uuid_is_base (Some \<lparr>uu = [0, 0, 0x18, 0x0d, 0, 0, 0x10, 0, 0x80, 0, 0, 0x80, 0x5f, 0x9b, 0x34, 0xfb]\<rparr>)
     = uuid_is_base (Some base_uuid) \<and>
   uuid_is_base (Some base_uuid)"
proof -
  have b: "uuid_is_base (Some base_uuid)" by code_simp
  have same: "\<forall>i\<in>{4..<16}.
      uu \<lparr>uu = [0, 0, 0x18, 0x0d, 0, 0, 0x10, 0, 0x80, 0, 0, 0x80, 0x5f, 0x9b, 0x34, 0xfb]\<rparr> ! i
        = uu base_uuid ! i"
    by (simp add: base_uuid_def atLeastLessThan_upt)
  show ?thesis
    using b same
      uuid_is_base_iff [of "\<lparr>uu = [0, 0, 0x18, 0x0d, 0, 0, 0x10, 0, 0x80, 0, 0, 0x80, 0x5f, 0x9b,
        0x34, 0xfb]\<rparr>" base_uuid]
    by blast
qed

subsection \<open>The empty UUID\<close>

text \<open>
  C8. \<^verbatim>\<open>uuid_is_empty\<close> is true of an absent reference, and of a UUID exactly when all
  its 16 bytes are zero. It is the one operation on UUID values that accepts an absent
  reference: \<^verbatim>\<open>uuid_is_equal\<close>, \<^verbatim>\<open>uuid_copy\<close>, \<^verbatim>\<open>uuid_128_to_16\<close>, \<^verbatim>\<open>uuid_128_to_32\<close>
  and \<^verbatim>\<open>uuid_to_string\<close> stop at a \<^verbatim>\<open>CHECK\<close> when a UUID argument is absent, whatever
  their other arguments are. (The file-local \<^verbatim>\<open>uuid_is_base\<close> is called by the two
  narrowing functions only, after their \<^verbatim>\<open>CHECK\<close>.)
\<close>

theorem uuid_is_empty_iff:
  "uuid_is_empty None \<and>
   (valid_uuid u \<longrightarrow> uuid_is_empty (Some u) = (\<forall>i\<in>{0..<16}. uu u ! i = 0)) \<and>
   uuid_is_equal None second = Inl CheckFailed \<and>
   uuid_is_equal first None = Inl CheckFailed \<and>
   uuid_copy None src = Inl CheckFailed \<and>
   uuid_copy dest None = Inl CheckFailed \<and>
   uuid_128_to_16 None uuid16 = Inl CheckFailed \<and>
   uuid_128_to_32 None uuid32 = Inl CheckFailed \<and>
   uuid_to_string None uuid_string = Inl CheckFailed"
proof (intro conjI impI)
  show "uuid_is_empty None" by (simp add: uuid_is_empty_def)
next
  assume "valid_uuid u"
  then show "uuid_is_empty (Some u) = (\<forall>i\<in>{0..<16}. uu u ! i = 0)"
    using replicate_zero_iff [of "uu u"]
    by (simp add: uuid_is_empty_Some valid_uuid_def sizeof_bt_uuid_t_def)
next
  show "uuid_is_equal first None = Inl CheckFailed"
    by (cases first) (simp_all add: uuid_is_equal_def)
next
  show "uuid_copy dest None = Inl CheckFailed"
    by (cases dest) (simp_all add: uuid_copy_def)
qed (simp_all add: uuid_is_equal_def uuid_copy_def uuid_128_to_16_def uuid_128_to_32_def
      uuid_to_string_def)

theorem uuid_is_empty_iff_witness:
  "valid_uuid base_uuid \<and> \<not> uuid_is_empty (Some base_uuid) \<and>
   uuid_is_equal None (Some base_uuid) = Inl CheckFailed \<and>
   uuid_to_string None (Some uuid_string_new) = Inl CheckFailed"
proof -
  have v: "valid_uuid base_uuid"
    by (simp add: valid_uuid_def sizeof_bt_uuid_t_def base_uuid_def)
  have "uu base_uuid ! 6 \<noteq> 0" by (simp add: base_uuid_def)
  then have nz: "\<not> (\<forall>i\<in>{0..<16}. uu base_uuid ! i = 0)"
    by (intro notI) (drule bspec [where x = 6], simp_all)
  show ?thesis
    using v nz
      uuid_is_empty_iff [of base_uuid "Some base_uuid" None None None None None
        "Some uuid_string_new"]
    by simp
qed

text \<open>
  C10. An empty UUID is not derived from the base UUID, and both narrowing functions fail
  on it, leaving the output as it was.
\<close>

theorem empty_not_base:
  assumes "valid_uuid u" and "uuid_is_empty (Some u)"
  shows "\<not> uuid_is_base (Some u) \<and>
         uuid_128_to_16 (Some u) (Some o16) = Inr (False, o16) \<and>
         uuid_128_to_32 (Some u) (Some o32) = Inr (False, o32)"
proof -
  from assms have "uu u = replicate 16 0" by (simp add: uuid_is_empty_Some)
  then have "uu u ! 6 \<noteq> uu base_uuid ! 6" by (simp add: base_uuid_def)
  then have nb: "\<not> uuid_is_base (Some u)" by (auto simp: uuid_is_base_Some)
  then show ?thesis by (simp add: uuid_128_to_16_def uuid_128_to_32_def)
qed

theorem empty_not_base_witness:
  "valid_uuid empty_uuid \<and> uuid_is_empty (Some empty_uuid) \<and> \<not> uuid_is_base (Some empty_uuid) \<and>
   uuid_128_to_16 (Some empty_uuid) (Some 7) = Inr (False, 7) \<and>
   uuid_128_to_32 (Some empty_uuid) (Some 9) = Inr (False, 9)"
proof -
  have v: "valid_uuid empty_uuid" by (simp add: valid_uuid_def sizeof_bt_uuid_t_def empty_uuid_def)
  have e: "uuid_is_empty (Some empty_uuid)" by code_simp
  show ?thesis using v e empty_not_base [OF v e, of 7 9] by simp
qed

subsection \<open>Narrowing to 16 and 32 bits\<close>

text \<open>
  C5. \<^verbatim>\<open>uuid_128_to_16\<close> and \<^verbatim>\<open>uuid_128_to_32\<close> return false exactly when the UUID is
  not derived from the base UUID, and then the output location keeps the value it had.
\<close>

theorem narrowing_fails_iff:
  assumes "valid_uuid u"
  shows "((\<exists>v. uuid_128_to_16 (Some u) (Some o16) = Inr (False, v)) = (\<not> uuid_is_base (Some u))) \<and>
         ((\<exists>w. uuid_128_to_32 (Some u) (Some o32) = Inr (False, w)) = (\<not> uuid_is_base (Some u))) \<and>
         (\<not> uuid_is_base (Some u) \<longrightarrow>
            uuid_128_to_16 (Some u) (Some o16) = Inr (False, o16) \<and>
            uuid_128_to_32 (Some u) (Some o32) = Inr (False, o32))"
  by (simp add: uuid_128_to_16_def uuid_128_to_32_def)

theorem narrowing_fails_iff_witness:
  "valid_uuid empty_uuid \<and> \<not> uuid_is_base (Some empty_uuid) \<and>
   uuid_128_to_16 (Some empty_uuid) (Some 7) = Inr (False, 7) \<and>
   uuid_128_to_32 (Some empty_uuid) (Some 9) = Inr (False, 9)"
proof -
  have v: "valid_uuid empty_uuid" by (simp add: valid_uuid_def sizeof_bt_uuid_t_def empty_uuid_def)
  have nb: "\<not> uuid_is_base (Some empty_uuid)" by code_simp
  show ?thesis using v nb narrowing_fails_iff [OF v, of 7 9] by simp
qed

text \<open>
  C4. On a UUID derived from the base UUID, \<^verbatim>\<open>uuid_128_to_16\<close> returns true and stores
  the 16-bit value with byte 2 as high byte and byte 3 as low byte, and \<^verbatim>\<open>uuid_128_to_32\<close>
  returns true and stores the big-endian value of bytes 0 to 3. The string
  \<^verbatim>\<open>00001101-0000-1000-8000-00805f9b34fb\<close> parses to a UUID that narrows to \<open>0x1101\<close>.
\<close>

theorem narrowing_values:
  "(valid_uuid u \<and> uuid_is_base (Some u) \<longrightarrow>
      (\<exists>v. uuid_128_to_16 (Some u) (Some o16) = Inr (True, v) \<and>
           unat v = unat (uu u ! 2) * 2 ^ 8 + unat (uu u ! 3)) \<and>
      (\<exists>w. uuid_128_to_32 (Some u) (Some o32) = Inr (True, w) \<and>
           unat w = unat (uu u ! 0) * 2 ^ 24 + unat (uu u ! 1) * 2 ^ 16 +
                    unat (uu u ! 2) * 2 ^ 8 + unat (uu u ! 3))) \<and>
   (\<exists>p. uuid_new (Some ''00001101-0000-1000-8000-00805f9b34fb'') = Inr (Some p) \<and>
        uuid_128_to_16 (Some p) (Some o16) = Inr (True, 0x1101))"
proof (intro conjI impI)
  assume "valid_uuid u \<and> uuid_is_base (Some u)"
  then show "\<exists>v. uuid_128_to_16 (Some u) (Some o16) = Inr (True, v) \<and>
           unat v = unat (uu u ! 2) * 2 ^ 8 + unat (uu u ! 3)"
    by (simp add: uuid_128_to_16_def narrow16_unat)
next
  assume "valid_uuid u \<and> uuid_is_base (Some u)"
  then show "\<exists>w. uuid_128_to_32 (Some u) (Some o32) = Inr (True, w) \<and>
           unat w = unat (uu u ! 0) * 2 ^ 24 + unat (uu u ! 1) * 2 ^ 16 +
                    unat (uu u ! 2) * 2 ^ 8 + unat (uu u ! 3)"
    by (simp add: uuid_128_to_32_def narrow32_unat)
next
  let ?p = "\<lparr>uu = [0, 0, 0x11, 0x01, 0, 0, 0x10, 0, 0x80, 0, 0, 0x80, 0x5f, 0x9b, 0x34, 0xfb]\<rparr>"
  have "uuid_is_base (Some ?p)" by code_simp
  then have "uuid_128_to_16 (Some ?p) (Some o16) = Inr (True, 0x1101)"
    by (simp add: uuid_128_to_16_def)
  with uuid_new_1101 show "\<exists>p. uuid_new (Some ''00001101-0000-1000-8000-00805f9b34fb'') = Inr (Some p) \<and>
        uuid_128_to_16 (Some p) (Some o16) = Inr (True, 0x1101)"
    by blast
qed

theorem narrowing_values_witness:
  "valid_uuid \<lparr>uu = [0x12, 0x34, 0x18, 0x0d, 0, 0, 0x10, 0, 0x80, 0, 0, 0x80, 0x5f, 0x9b, 0x34, 0xfb]\<rparr> \<and>
   uuid_is_base (Some \<lparr>uu = [0x12, 0x34, 0x18, 0x0d, 0, 0, 0x10, 0, 0x80, 0, 0, 0x80, 0x5f, 0x9b, 0x34, 0xfb]\<rparr>) \<and>
   (\<exists>v. uuid_128_to_16 (Some \<lparr>uu = [0x12, 0x34, 0x18, 0x0d, 0, 0, 0x10, 0, 0x80, 0, 0, 0x80, 0x5f, 0x9b, 0x34, 0xfb]\<rparr>)
           (Some 0) = Inr (True, v) \<and> unat v = 0x180d) \<and>
   (\<exists>w. uuid_128_to_32 (Some \<lparr>uu = [0x12, 0x34, 0x18, 0x0d, 0, 0, 0x10, 0, 0x80, 0, 0, 0x80, 0x5f, 0x9b, 0x34, 0xfb]\<rparr>)
           (Some 0) = Inr (True, w) \<and> unat w = 0x1234180d)"
proof -
  let ?u = "\<lparr>uu = [0x12, 0x34, 0x18, 0x0d, 0, 0, 0x10, 0, 0x80, 0, 0, 0x80, 0x5f, 0x9b, 0x34, 0xfb]\<rparr>"
  have v: "valid_uuid ?u" by (simp add: valid_uuid_def sizeof_bt_uuid_t_def)
  have b: "uuid_is_base (Some ?u)" by code_simp
  show ?thesis
    using v b narrowing_values [of ?u 0 0] by simp
qed

subsection \<open>Parsing\<close>

text \<open>
  C3. \<^verbatim>\<open>uuid_new\<close> returns \<^verbatim>\<open>NULL\<close> exactly when the string is shorter than 36
  characters or one of the characters at offsets 8, 13, 18, 23 is not a dash; what it
  returns is \<^verbatim>\<open>NULL\<close> or a UUID with all its 16 bytes.
\<close>

theorem uuid_new_fails_iff:
  "(uuid_new (Some s) = Inr None) =
     (strlen s < 36 \<or> char_at s 8 \<noteq> CHR ''-'' \<or> char_at s 13 \<noteq> CHR ''-'' \<or>
      char_at s 18 \<noteq> CHR ''-'' \<or> char_at s 23 \<noteq> CHR ''-'') \<and>
   (uuid_new (Some s) = Inr None \<or> (\<exists>u. uuid_new (Some s) = Inr (Some u) \<and> valid_uuid u))"
proof
  show "(uuid_new (Some s) = Inr None) =
     (strlen s < 36 \<or> char_at s 8 \<noteq> CHR ''-'' \<or> char_at s 13 \<noteq> CHR ''-'' \<or>
      char_at s 18 \<noteq> CHR ''-'' \<or> char_at s 23 \<noteq> CHR ''-'')"
    by (simp add: uuid_new_def UUID_WELL_FORMED_STRING_LEN_def)
  show "uuid_new (Some s) = Inr None \<or> (\<exists>u. uuid_new (Some s) = Inr (Some u) \<and> valid_uuid u)"
    by (rule uuid_new_result)
qed

theorem uuid_new_fails_iff_witness:
  "uuid_new (Some ''00001101-0000-1000-8000'') = Inr None \<and>
   uuid_new (Some ''00001101+0000-1000-8000-00805f9b34fb'') = Inr None"
  using uuid_new_fails_iff [of "''00001101-0000-1000-8000''"]
    uuid_new_fails_iff [of "''00001101+0000-1000-8000-00805f9b34fb''"]
  by (simp add: char_at_def NUL_def)

text \<open>
  C9, as amended. On a string of at least 36 characters with dashes at offsets 8, 13, 18,
  23, \<^verbatim>\<open>uuid_new\<close> succeeds whatever the other characters are. A byte is 0 when neither
  of its two characters is a hexadecimal digit, and when its first character is not a
  hexadecimal digit, white space or a sign. When one character is a hexadecimal digit and
  the other is not, the byte is the value of the digit if the digit comes first or follows
  white space or a plus sign, and the negated value if it follows a minus sign.
\<close>

theorem uuid_new_lenient:
  assumes "36 \<le> strlen s"
    and "char_at s 8 = CHR ''-''" and "char_at s 13 = CHR ''-''"
    and "char_at s 18 = CHR ''-''" and "char_at s 23 = CHR ''-''"
  shows "\<exists>u. uuid_new (Some s) = Inr (Some u) \<and> valid_uuid u \<and>
           (\<forall>i<16.
              (\<not> is_hex_char (char_at s (pair_offset i)) \<and>
               \<not> is_hex_char (char_at s (pair_offset i + 1)) \<longrightarrow> uu u ! i = 0) \<and>
              (\<not> is_hex_char (char_at s (pair_offset i)) \<and>
               \<not> isspace (char_at s (pair_offset i)) \<and>
               char_at s (pair_offset i) \<noteq> CHR ''-'' \<and>
               char_at s (pair_offset i) \<noteq> CHR ''+'' \<longrightarrow> uu u ! i = 0) \<and>
              (is_hex_char (char_at s (pair_offset i)) \<and>
               \<not> is_hex_char (char_at s (pair_offset i + 1)) \<longrightarrow>
                 uu u ! i = of_nat (the (digit_value (char_at s (pair_offset i))))) \<and>
              ((isspace (char_at s (pair_offset i)) \<or> char_at s (pair_offset i) = CHR ''+'') \<and>
               is_hex_char (char_at s (pair_offset i + 1)) \<longrightarrow>
                 uu u ! i = of_nat (the (digit_value (char_at s (pair_offset i + 1))))) \<and>
              (char_at s (pair_offset i) = CHR ''-'' \<and>
               is_hex_char (char_at s (pair_offset i + 1)) \<longrightarrow>
                 uu u ! i = - of_nat (the (digit_value (char_at s (pair_offset i + 1))))))"
proof -
  let ?u = "\<lparr>uu = map (pair_byte s) [0..<16]\<rparr>"
  have "uuid_new (Some s) = Inr (Some ?u)" using assms by (rule uuid_new_Some)
  moreover have "valid_uuid ?u" by (simp add: valid_uuid_def sizeof_bt_uuid_t_def)
  moreover have "\<forall>i<16.
      (\<not> is_hex_char (char_at s (pair_offset i)) \<and>
       \<not> is_hex_char (char_at s (pair_offset i + 1)) \<longrightarrow> uu ?u ! i = 0) \<and>
      (\<not> is_hex_char (char_at s (pair_offset i)) \<and>
       \<not> isspace (char_at s (pair_offset i)) \<and>
       char_at s (pair_offset i) \<noteq> CHR ''-'' \<and>
       char_at s (pair_offset i) \<noteq> CHR ''+'' \<longrightarrow> uu ?u ! i = 0) \<and>
      (is_hex_char (char_at s (pair_offset i)) \<and>
       \<not> is_hex_char (char_at s (pair_offset i + 1)) \<longrightarrow>
         uu ?u ! i = of_nat (the (digit_value (char_at s (pair_offset i))))) \<and>
      ((isspace (char_at s (pair_offset i)) \<or> char_at s (pair_offset i) = CHR ''+'') \<and>
       is_hex_char (char_at s (pair_offset i + 1)) \<longrightarrow>
         uu ?u ! i = of_nat (the (digit_value (char_at s (pair_offset i + 1))))) \<and>
      (char_at s (pair_offset i) = CHR ''-'' \<and>
       is_hex_char (char_at s (pair_offset i + 1)) \<longrightarrow>
         uu ?u ! i = - of_nat (the (digit_value (char_at s (pair_offset i + 1)))))"
  proof (intro allI impI conjI)
    fix i :: nat
    assume i: "i < 16"
    then have b: "uu ?u ! i = pair_byte s i" by simp
    {
      assume "\<not> is_hex_char (char_at s (pair_offset i)) \<and>
              \<not> is_hex_char (char_at s (pair_offset i + 1))"
      then show "uu ?u ! i = 0"
        unfolding b by (simp add: pair_byte_def strtoul_no_digit isxdigit_iff)
    next
      assume "\<not> is_hex_char (char_at s (pair_offset i)) \<and>
              \<not> isspace (char_at s (pair_offset i)) \<and>
              char_at s (pair_offset i) \<noteq> CHR ''-'' \<and>
              char_at s (pair_offset i) \<noteq> CHR ''+''"
      then show "uu ?u ! i = 0"
        unfolding b by (simp add: pair_byte_def strtoul_first_other)
    next
      assume "is_hex_char (char_at s (pair_offset i)) \<and>
              \<not> is_hex_char (char_at s (pair_offset i + 1))"
      then show "uu ?u ! i = of_nat (the (digit_value (char_at s (pair_offset i))))"
        unfolding b pair_byte_def
        by (elim conjE) (simp only: strtoul_digit_then_other ucast_ulong_byte_nat simp_thms)
    next
      assume "(isspace (char_at s (pair_offset i)) \<or> char_at s (pair_offset i) = CHR ''+'') \<and>
              is_hex_char (char_at s (pair_offset i + 1))"
      then show "uu ?u ! i = of_nat (the (digit_value (char_at s (pair_offset i + 1))))"
        unfolding b pair_byte_def
        by (elim conjE) (simp only: strtoul_space_then_digit ucast_ulong_byte_nat simp_thms)
    next
      assume "char_at s (pair_offset i) = CHR ''-'' \<and>
              is_hex_char (char_at s (pair_offset i + 1))"
      then show "uu ?u ! i = - of_nat (the (digit_value (char_at s (pair_offset i + 1))))"
        unfolding b pair_byte_def
        by (elim conjE) (simp only: strtoul_minus_then_digit ucast_ulong_byte_minus simp_thms)
    }
  qed
  ultimately show ?thesis by blast
qed

theorem uuid_new_lenient_witness:
  "\<exists>u. uuid_new (Some ''zz-1+f1g-x1 2-1000-8000-00805f9b34fb'') = Inr (Some u) \<and> valid_uuid u \<and>
       uu u ! 0 = 0 \<and> uu u ! 1 = 0xff \<and> uu u ! 2 = 0x0f \<and> uu u ! 3 = 0x01 \<and>
       uu u ! 4 = 0 \<and> uu u ! 5 = 0x02"
proof -
  have h: "36 \<le> strlen ''zz-1+f1g-x1 2-1000-8000-00805f9b34fb''"
    "char_at ''zz-1+f1g-x1 2-1000-8000-00805f9b34fb'' 8 = CHR ''-''"
    "char_at ''zz-1+f1g-x1 2-1000-8000-00805f9b34fb'' 13 = CHR ''-''"
    "char_at ''zz-1+f1g-x1 2-1000-8000-00805f9b34fb'' 18 = CHR ''-''"
    "char_at ''zz-1+f1g-x1 2-1000-8000-00805f9b34fb'' 23 = CHR ''-''"
    by (simp_all add: char_at_def NUL_def)
  from uuid_new_lenient [OF h] show ?thesis
    apply (elim exE conjE)
    subgoal for u
      apply (rule exI [of _ u])
      apply (frule spec [of _ 0])
      apply (frule spec [of _ 1])
      apply (frule spec [of _ 2])
      apply (frule spec [of _ 3])
      apply (frule spec [of _ 4])
      apply (drule spec [of _ 5])
      apply (simp add: char_at_def pair_offset_def is_hex_char_def isspace_def digit_value_def)
      done
    done
qed

text \<open>
  C9 as stated fails: a character that is not a hexadecimal digit does not always give 0.
  \<^verbatim>\<open>strtoul\<close> reads the minus sign of the pair \<^verbatim>\<open>-1\<close> as a sign, and the byte is
  \<open>0xff\<close>.
\<close>

theorem uuid_new_minus_sign:
  "\<not> is_hex_char (CHR ''-'') \<and>
   uuid_new (Some ''-1000000-0000-1000-8000-00805f9b34fb'') =
     Inr (Some \<lparr>uu = [0xff, 0, 0, 0, 0, 0, 0x10, 0, 0x80, 0, 0, 0x80, 0x5f, 0x9b, 0x34, 0xfb]\<rparr>)"
  apply (rule conjI)
   apply (simp add: is_hex_char_def)
  apply code_simp
  done

subsection \<open>Formatting\<close>

text \<open>
  C7. For a UUID of 16 bytes, \<^verbatim>\<open>uuid_to_string\<close> leaves in the buffer a string of exactly
  36 characters, the canonical text of the UUID: byte \<open>i\<close> gives the two lowercase
  hexadecimal digits at \<open>pair_offset i\<close>, high digit first, and the characters at offsets
  8, 13, 18 and 23 are dashes.
\<close>

theorem uuid_to_string_canonical:
  assumes "valid_uuid u" and "valid_uuid_string us"
  shows "\<exists>us'. uuid_to_string (Some u) (Some us) = Inr us' \<and>
           valid_uuid_string us' \<and>
           c_str (string us') = canonical_text (uu u) \<and>
           length (c_str (string us')) = 36 \<and>
           (\<forall>i<16. c_str (string us') ! pair_offset i = hex_digit (unat (uu u ! i) div 16) \<and>
                    c_str (string us') ! (pair_offset i + 1) = hex_digit (unat (uu u ! i) mod 16)) \<and>
           c_str (string us') ! 8 = CHR ''-'' \<and> c_str (string us') ! 13 = CHR ''-'' \<and>
           c_str (string us') ! 18 = CHR ''-'' \<and> c_str (string us') ! 23 = CHR ''-'' \<and>
           set (c_str (string us')) \<subseteq> set ''0123456789abcdef-''"
proof -
  let ?us' = "us\<lparr>string := canonical_text (uu u) @ [NUL]\<rparr>"
  have len: "length (uu u) = 16" using assms(1) by (simp add: valid_uuid_def sizeof_bt_uuid_t_def)
  have r: "uuid_to_string (Some u) (Some us) = Inr ?us'"
    by (rule uuid_to_string_Some [OF assms])
  have c: "c_str (string ?us') = canonical_text (uu u)"
    using canonical_text_no_NUL [OF len] by (simp add: c_str_append_NUL)
  have v: "valid_uuid_string ?us'"
    using length_canonical_text [OF len]
    by (simp add: valid_uuid_string_def UUID_WELL_FORMED_STRING_LEN_WITH_NULL_def)
  show ?thesis
    unfolding r
    using v length_canonical_text [OF len] canonical_text_pairs [OF len]
      canonical_text_dashes [OF len] canonical_text_chars [OF len]
    by (simp only: c sum.inject simp_thms ex_simps) simp
qed

theorem uuid_to_string_canonical_witness:
  "\<exists>us'. uuid_to_string (Some base_uuid) (Some uuid_string_new) = Inr us' \<and>
         c_str (string us') = ''00000000-0000-1000-8000-00805f9b34fb'' \<and>
         length (c_str (string us')) = 36"
proof -
  have v: "valid_uuid base_uuid"
    by (simp add: valid_uuid_def sizeof_bt_uuid_t_def base_uuid_def)
  have ct: "canonical_text (uu base_uuid) = ''00000000-0000-1000-8000-00805f9b34fb''"
    by (simp add: canonical_text_def hex_pair_def hex_digit_def base_uuid_def)
  from uuid_to_string_canonical [OF v valid_uuid_string_new] show ?thesis
    unfolding ct by blast
qed

subsection \<open>Round trips\<close>

text \<open>
  C1. Formatting a UUID of 16 bytes with \<^verbatim>\<open>uuid_to_string\<close> and parsing the string
  with \<^verbatim>\<open>uuid_new\<close> gives the UUID back.
\<close>

theorem parse_format_roundtrip:
  assumes "valid_uuid u" and "valid_uuid_string us"
  shows "\<exists>us' str. uuid_to_string (Some u) (Some us) = Inr us' \<and>
           uuid_string_data (Some us') = Inr str \<and>
           uuid_new (Some str) = Inr (Some u)"
proof -
  have len: "length (uu u) = 16" using assms(1) by (simp add: valid_uuid_def sizeof_bt_uuid_t_def)
  have "uuid_new (Some (canonical_text (uu u) @ [NUL])) = Inr (Some \<lparr>uu = uu u\<rparr>)"
    by (rule parse_canonical [OF len])
  then show ?thesis
    by (simp add: uuid_to_string_Some [OF assms] uuid_string_data_def)
qed

theorem parse_format_roundtrip_witness:
  "\<exists>us' str.
     uuid_to_string
       (Some \<lparr>uu = [0x12, 0x34, 0xab, 0xcd, 0xef, 0x01, 0x23, 0x45, 0x67, 0x89, 0xfe, 0xdc,
                    0xba, 0x98, 0x76, 0x54]\<rparr>) (Some uuid_string_new) = Inr us' \<and>
     uuid_string_data (Some us') = Inr str \<and>
     uuid_new (Some str) =
       Inr (Some \<lparr>uu = [0x12, 0x34, 0xab, 0xcd, 0xef, 0x01, 0x23, 0x45, 0x67, 0x89, 0xfe, 0xdc,
                         0xba, 0x98, 0x76, 0x54]\<rparr>)"
proof -
  have v: "valid_uuid \<lparr>uu = [0x12, 0x34, 0xab, 0xcd, 0xef, 0x01, 0x23, 0x45, 0x67, 0x89, 0xfe,
      0xdc, 0xba, 0x98, 0x76, 0x54]\<rparr>"
    by (simp add: valid_uuid_def sizeof_bt_uuid_t_def)
  show ?thesis
    by (rule parse_format_roundtrip [OF v valid_uuid_string_new])
qed

text \<open>
  C2. Parsing a string in the canonical pattern with \<^verbatim>\<open>uuid_new\<close> and formatting
  the UUID with \<^verbatim>\<open>uuid_to_string\<close> gives the string back with its hexadecimal digits
  in lowercase.
\<close>

theorem format_parse_roundtrip:
  assumes "well_formed s" and "valid_uuid_string us"
  shows "\<exists>u us'. uuid_new (Some s) = Inr (Some u) \<and>
           uuid_to_string (Some u) (Some us) = Inr us' \<and>
           c_str (string us') = map to_lower s"
proof -
  let ?u = "\<lparr>uu = map (pair_byte s) [0..<16]\<rparr>"
  note wf = well_formed_parse_format [OF assms(1)]
  have p: "uuid_new (Some s) = Inr (Some ?u)"
    using wf by (intro uuid_new_Some) simp_all
  have v: "valid_uuid ?u" by (simp add: valid_uuid_def sizeof_bt_uuid_t_def)
  have f: "uuid_to_string (Some ?u) (Some us) = Inr (us\<lparr>string := canonical_text (uu ?u) @ [NUL]\<rparr>)"
    by (rule uuid_to_string_Some [OF v assms(2)])
  have "c_str (canonical_text (uu ?u) @ [NUL]) = canonical_text (uu ?u)"
    using canonical_text_no_NUL [of "uu ?u"] by (simp add: c_str_append_NUL)
  then have "c_str (string (us\<lparr>string := canonical_text (uu ?u) @ [NUL]\<rparr>)) = map to_lower s"
    using wf by simp
  with p f show ?thesis by blast
qed

theorem format_parse_roundtrip_witness:
  "\<exists>u us'. uuid_new (Some ''0000180D-0000-1000-8000-00805F9B34FB'') = Inr (Some u) \<and>
     uuid_to_string (Some u) (Some uuid_string_new) = Inr us' \<and>
     c_str (string us') = ''0000180d-0000-1000-8000-00805f9b34fb''"
proof -
  have wf: "well_formed ''0000180D-0000-1000-8000-00805F9B34FB''"
    by code_simp
  have lower: "map to_lower ''0000180D-0000-1000-8000-00805F9B34FB''
      = ''0000180d-0000-1000-8000-00805f9b34fb''"
    by (simp add: to_lower_def)
  from format_parse_roundtrip [OF wf valid_uuid_string_new] show ?thesis
    unfolding lower .
qed

end
